theory Spec2Isabelle
  imports Main
begin

section \<open>Data model\<close>

text \<open>
  The bot (\<^verbatim>\<open>src/index.js\<close>) talks to three collaborators: the episode metadata
  provider (HTTP, \<^verbatim>\<open>fetch\<close>), two MongoDB collections (\<^verbatim>\<open>series\<close>, \<^verbatim>\<open>reactions\<close>) and the
  Telegram transport. The provider is a parameter of the model (a \<open>gateway\<close>); a collection
  is the list of its documents in natural order; the transport calls a handler makes are
  collected in the order they are issued.
\<close>

text \<open>A rejected \<^verbatim>\<open>fetch\<close> promise, or a body that \<^verbatim>\<open>response.json()\<close> cannot parse.\<close>

datatype fault = TransportFailure | ParseFailure

text \<open>
  An identifier as JavaScript holds it: the provider's JSON carries a number, a callback
  payload carries a string, and \<^verbatim>\<open>!==\<close> as well as a MongoDB equality match tell the two
  apart.
\<close>

datatype ident = Num int | Str string

text \<open>
  An element of the provider's \<^verbatim>\<open>data\<close> array. The three text fields may be \<^verbatim>\<open>null\<close> or
  missing (\<open>None\<close>) or hold a string, possibly the empty one.
\<close>

record episode =
  episode_id :: ident
  episodeName :: "string option"
  airedEpisodeNumber :: int
  airedSeason :: int
  overview :: "string option"
  filename :: "string option"

text \<open>The body of the summary endpoint: \<^verbatim>\<open>data.data\<close>, with its \<^verbatim>\<open>airedSeasons\<close> property.\<close>

datatype summary_body = SummaryBody (airedSeasons: "nat list option")

text \<open>
  The provider as the resolver consumes it. \<open>summary gw seriesId\<close> is the parsed answer of
  \<^verbatim>\<open>/series/<id>/episodes/summary\<close>: a fault, or the \<^verbatim>\<open>data\<close> property (absent: \<open>None\<close>).
  \<open>episodes gw seriesId season\<close> is the parsed answer of the episode query of one season:
  a fault, or its \<^verbatim>\<open>data\<close> array (absent: \<open>None\<close>).
\<close>

record gateway =
  summary :: "string \<Rightarrow> fault + summary_body option"
  episodes :: "string \<Rightarrow> nat \<Rightarrow> fault + episode list option"

text \<open>A request sent to the provider.\<close>

datatype call = SummaryCall string | EpisodesCall string nat

section \<open>Latest-episode resolver\<close>

text \<open>
  JavaScript truthiness of a text field: \<^verbatim>\<open>null\<close>, \<^verbatim>\<open>undefined\<close> and the empty string are
  falsy, every other string is truthy.
\<close>

fun truthy :: "string option \<Rightarrow> bool" where
  "truthy None = False"
| "truthy (Some s) = (s \<noteq> [])"

text \<open>The filter of \<^verbatim>\<open>fetchValidEpisodes\<close>: \<^verbatim>\<open>ep.episodeName && ep.overview && ep.filename\<close>.\<close>

definition isValid :: "episode \<Rightarrow> bool" where
  "isValid ep = (truthy (episodeName ep) \<and> truthy (overview ep) \<and> truthy (filename ep))"

text \<open>
  \<^verbatim>\<open>fetchValidEpisodes\<close>: a fault of the request propagates to the caller; a missing or
  empty \<^verbatim>\<open>data\<close> gives the empty list; otherwise \<^verbatim>\<open>Array.prototype.filter\<close>, which keeps
  the order of the array.
\<close>

definition fetchValidEpisodes :: "gateway \<Rightarrow> string \<Rightarrow> nat \<Rightarrow> fault + episode list" where
  "fetchValidEpisodes gw seriesId season =
     (case episodes gw seriesId season of
        Inl e \<Rightarrow> Inl e
      | Inr episodesData \<Rightarrow>
          (case episodesData of
             None \<Rightarrow> Inr []
           | Some d \<Rightarrow> if length d = 0 then Inr [] else Inr (filter isValid d)))"

text \<open>
  The \<^verbatim>\<open>while\<close> loop of \<^verbatim>\<open>fetchLatestEpisode\<close>. \<open>seasons\<close> is \<^verbatim>\<open>data.data.airedSeasons\<close>, which
  \<^verbatim>\<open>pop()\<close> shortens from its end; \<open>log\<close> is the list of requests sent so far. The result
  is what leaves the loop (a fault thrown by the season fetch, the returned episode, or
  falling out of the loop with nothing) and the requests sent.
\<close>

function seasonWalk ::
  "gateway \<Rightarrow> string \<Rightarrow> nat list \<Rightarrow> call list \<Rightarrow> (fault + episode option) \<times> call list" where
  "seasonWalk gw seriesId seasons log =
     (if length seasons > 0 then
        (case fetchValidEpisodes gw seriesId (last seasons) of
           Inl e \<Rightarrow> (Inl e, log @ [EpisodesCall seriesId (last seasons)])
         | Inr validEpisodes \<Rightarrow>
             if length validEpisodes > 0
             then (Inr (Some (last validEpisodes)), log @ [EpisodesCall seriesId (last seasons)])
             else seasonWalk gw seriesId (butlast seasons)
                    (log @ [EpisodesCall seriesId (last seasons)]))
      else (Inr None, log))"
  by pat_completeness auto
termination
  by (relation "measure (\<lambda>(gw, seriesId, seasons, log). length seasons)") auto

declare seasonWalk.simps [simp del]

text \<open>
  \<^verbatim>\<open>fetchLatestEpisode\<close>: the summary request, the three guards on its answer, the loop, and
  the \<^verbatim>\<open>catch\<close> that turns every fault into \<^verbatim>\<open>null\<close> (\<open>None\<close>). The second component is the
  list of requests the call sent.
\<close>

definition fetchLatestEpisode :: "gateway \<Rightarrow> string \<Rightarrow> episode option \<times> call list" where
  "fetchLatestEpisode gw seriesId =
     (case summary gw seriesId of
        Inl e \<Rightarrow> (None, [SummaryCall seriesId])
      | Inr d \<Rightarrow>
          (case d of
             None \<Rightarrow> (None, [SummaryCall seriesId])
           | Some body \<Rightarrow>
               (case airedSeasons body of
                  None \<Rightarrow> (None, [SummaryCall seriesId])
                | Some seasons \<Rightarrow>
                    if length seasons = 0 then (None, [SummaryCall seriesId])
                    else
                      (case seasonWalk gw seriesId seasons [SummaryCall seriesId] of
                         (Inl e, log) \<Rightarrow> (None, log)
                       | (Inr r, log) \<Rightarrow> (r, log)))))"

text \<open>The seasons whose episode list a run requested, in the order of the requests.\<close>

fun seasonsFetched :: "call list \<Rightarrow> nat list" where
  "seasonsFetched [] = []"
| "seasonsFetched (SummaryCall sid # cs) = seasonsFetched cs"
| "seasonsFetched (EpisodesCall sid s # cs) = s # seasonsFetched cs"

section \<open>Reaction store and tally\<close>

datatype reaction = Like | Love | Angry

text \<open>The first group of the handler's pattern \<^verbatim>\<open>(like|love|angry)_(.+)\<close>, as text.\<close>

fun reactionName :: "reaction \<Rightarrow> string" where
  "reactionName Like = ''like''"
| "reactionName Love = ''love''"
| "reactionName Angry = ''angry''"

text \<open>
  A document of the \<^verbatim>\<open>reactions\<close> collection. The collection has no unique index: it is a
  list of documents, in insertion order, and nothing but the handler below keeps the pair
  (episodeId, userId) unique.
\<close>

record reaction_record =
  episodeId :: ident
  userId :: int
  reaction :: reaction

type_synonym reactions = "reaction_record list"

record tally =
  like :: nat
  love :: nat
  angry :: nat

text \<open>\<^verbatim>\<open>findOne({ episodeId, userId })\<close>: the first document matching both fields.\<close>

definition findOne :: "reactions \<Rightarrow> ident \<Rightarrow> int \<Rightarrow> reaction_record option" where
  "findOne coll e u = find (\<lambda>d. episodeId d = e \<and> userId d = u) coll"

text \<open>
  \<^verbatim>\<open>updateOne({ episodeId, userId }, { $set: { reaction } })\<close>: the first matching document
  gets the new value, where it stands.
\<close>

fun updateOne :: "reactions \<Rightarrow> ident \<Rightarrow> int \<Rightarrow> reaction \<Rightarrow> reactions" where
  "updateOne [] e u r = []"
| "updateOne (d # ds) e u r =
     (if episodeId d = e \<and> userId d = u then d\<lparr>reaction := r\<rparr> # ds
      else d # updateOne ds e u r)"

definition insertOne :: "reactions \<Rightarrow> reaction_record \<Rightarrow> reactions" where
  "insertOne coll d = coll @ [d]"

text \<open>
  The pipeline of \<^verbatim>\<open>getReactions\<close>: \<^verbatim>\<open>$match\<close> on the episode, then \<^verbatim>\<open>$group\<close> by reaction
  value with \<^verbatim>\<open>$sum: 1\<close>: one pair per value that occurs, with its number of documents.
\<close>

definition aggregate :: "reactions \<Rightarrow> ident \<Rightarrow> (reaction \<times> nat) list" where
  "aggregate coll e =
     map (\<lambda>r. (r, length (filter (\<lambda>d. reaction d = r) (filter (\<lambda>d. episodeId d = e) coll))))
       (remdups (map reaction (filter (\<lambda>d. episodeId d = e) coll)))"

text \<open>\<^verbatim>\<open>reactionCounts[_id] = count\<close>.\<close>

fun setCount :: "tally \<Rightarrow> reaction \<times> nat \<Rightarrow> tally" where
  "setCount t (Like, c) = t\<lparr>like := c\<rparr>"
| "setCount t (Love, c) = t\<lparr>love := c\<rparr>"
| "setCount t (Angry, c) = t\<lparr>angry := c\<rparr>"

text \<open>\<^verbatim>\<open>getReactions\<close>: the three counters start at zero and the groups overwrite them.\<close>

definition getReactions :: "reactions \<Rightarrow> ident \<Rightarrow> tally" where
  "getReactions coll e = foldl setCount \<lparr>like = 0, love = 0, angry = 0\<rparr> (aggregate coll e)"

section \<open>Chat transport\<close>

text \<open>An awaited transport call either resolves or rejects.\<close>

datatype outcome = Resolved | Rejected

text \<open>
  The photo message of \<^verbatim>\<open>sendLatestEpisodeNotification\<close>, kept as the values its template
  literals interpolate: the chat, the file of the thumbnail URL, title, season and episode
  number and description of the caption, and the reaction row (its three counts and the
  id its \<^verbatim>\<open>callback_data\<close> carry).
\<close>

record photo =
  chat :: string
  thumbnail :: "string option"
  title :: "string option"
  season :: int
  number :: int
  description :: "string option"
  counts :: tally
  target :: ident

text \<open>
  What a handler does to the outside, in the order it does it: a transport call, or a line
  on \<^verbatim>\<open>console.error\<close>.
\<close>

datatype effect =
    SendPhoto photo
  | EditMessageReplyMarkup tally string
  | AnswerCbQuery string
  | Reply string
  | EditMessageText string "string list"
  | ConsoleError string

text \<open>
  The transport as far as a handler's control flow depends on it: whether \<^verbatim>\<open>sendPhoto\<close>
  and \<^verbatim>\<open>editMessageReplyMarkup\<close>, the two awaited calls, resolve.
\<close>

record transport =
  sendPhoto :: "photo \<Rightarrow> outcome"
  editMessageReplyMarkup :: "tally \<Rightarrow> string \<Rightarrow> outcome"

section \<open>Notification\<close>








section \<open>Reaction handler\<close>

text \<open>
  The tail of the handler, after the store was written: the tally is recomputed, the button
  row is edited (a rejection is caught and logged), and the tap is answered.
\<close>

definition rerender :: "transport \<Rightarrow> reactions \<Rightarrow> reaction \<Rightarrow> string \<Rightarrow> effect list" where
  "rerender tr coll r e =
     (case editMessageReplyMarkup tr (getReactions coll (Str e)) e of
        Resolved \<Rightarrow> [EditMessageReplyMarkup (getReactions coll (Str e)) e]
      | Rejected \<Rightarrow>
          [EditMessageReplyMarkup (getReactions coll (Str e)) e,
           ConsoleError ''Error updating reply markup:''])
     @ [AnswerCbQuery (''You reacted with '' @ reactionName r)]"

text \<open>
  \<^verbatim>\<open>bot.action(/(like|love|angry)_(.+)/, ...)\<close>: \<open>r\<close> and \<open>e\<close> are the two groups of the
  match (the episode id is the text of the callback payload), \<open>u\<close> is \<^verbatim>\<open>ctx.from.id\<close>.
  With a record of the same value the handler returns at once.
\<close>

definition reactionAction ::
  "transport \<Rightarrow> reactions \<Rightarrow> reaction \<Rightarrow> string \<Rightarrow> int \<Rightarrow> reactions \<times> effect list" where
  "reactionAction tr coll r e u =
     (case findOne coll (Str e) u of
        Some existingReaction \<Rightarrow>
          if reaction existingReaction \<noteq> r
          then (updateOne coll (Str e) u r, rerender tr (updateOne coll (Str e) u r) r e)
          else (coll, [])
      | None \<Rightarrow>
          (insertOne coll \<lparr>episodeId = Str e, userId = u, reaction = r\<rparr>,
           rerender tr (insertOne coll \<lparr>episodeId = Str e, userId = u, reaction = r\<rparr>) r e))"








section \<open>Tracked series\<close>

text \<open>
  The \<^verbatim>\<open>series\<close> collection: its documents hold one field, \<^verbatim>\<open>seriesId\<close>, so the collection
  is the list of these values in insertion order.
\<close>

type_synonym series = "string list"

text \<open>\<^verbatim>\<open>String.prototype.split(' ')\<close>: the pieces between single spaces, empty ones included.\<close>

fun split_space :: "string \<Rightarrow> string list" where
  "split_space [] = [[]]"
| "split_space (c # cs) =
     (if c = CHR '' '' then [] # split_space cs
      else (case split_space cs of
              [] \<Rightarrow> [[c]]
            | w # ws \<Rightarrow> (c # w) # ws))"

text \<open>An array read \<^verbatim>\<open>xs[i]\<close>: \<^verbatim>\<open>undefined\<close> (\<open>None\<close>) beyond the end.\<close>

definition at_index :: "'a list \<Rightarrow> nat \<Rightarrow> 'a option" where
  "at_index xs i = (if i < length xs then Some (xs ! i) else None)"

text \<open>\<^verbatim>\<open>seriesCollection.findOne({ seriesId })\<close> and \<^verbatim>\<open>deleteOne({ seriesId })\<close>.\<close>

definition findSeries :: "series \<Rightarrow> string \<Rightarrow> string option" where
  "findSeries coll sid = find (\<lambda>d. d = sid) coll"

definition deleteOne :: "series \<Rightarrow> string \<Rightarrow> series" where
  "deleteOne coll sid = remove1 sid coll"

text \<open>
  \<^verbatim>\<open>bot.command('add_series', ...)\<close> on the text of the message. The id is the second piece
  of the text; \<^verbatim>\<open>seriesId && !(await findOne(...))\<close> looks the id up only when it is a
  non-empty string. Both ways of failing the test end in the same \<^verbatim>\<open>else\<close> branch.
\<close>

definition add_series :: "series \<Rightarrow> string \<Rightarrow> series \<times> effect list" where
  "add_series coll text =
     (case at_index (split_space text) 1 of
        None \<Rightarrow>
          (coll, [Reply ''Please provide a valid series ID or the series is already added.''])
      | Some seriesId \<Rightarrow>
          if seriesId \<noteq> [] \<and> findSeries coll seriesId = None
          then (coll @ [seriesId], [Reply (''Series with ID '' @ seriesId @ '' added.'')])
          else
            (coll, [Reply ''Please provide a valid series ID or the series is already added.'']))"

text \<open>
  \<^verbatim>\<open>bot.action(/remove_(.+)/, ...)\<close>: the delete, then the edited message with its single
  button, whatever the delete found.
\<close>

definition remove_action :: "series \<Rightarrow> string \<Rightarrow> series \<times> effect list" where
  "remove_action coll seriesId =
     (deleteOne coll seriesId,
      [EditMessageText (''Series with ID '' @ seriesId @ '' removed.'') [''back_to_list'']])"

section \<open>Provider faults and example data\<close>

text \<open>The provider answers the request with a fault.\<close>

fun raises :: "gateway \<Rightarrow> call \<Rightarrow> bool" where
  "raises gw (SummaryCall sid) = isl (summary gw sid)"
| "raises gw (EpisodesCall sid s) = isl (episodes gw sid s)"

text \<open>
  A series with aired seasons 1 and 2: season 1 holds two complete episodes, season 2 a
  single entry without synopsis.
\<close>

definition episodeA :: episode where
  "episodeA = \<lparr>episode_id = Num 101, episodeName = Some ''Pilot'', airedEpisodeNumber = 1,
     airedSeason = 1, overview = Some ''The beginning'', filename = Some ''a.jpg''\<rparr>"

definition episodeB :: episode where
  "episodeB = \<lparr>episode_id = Num 102, episodeName = Some ''Second'', airedEpisodeNumber = 2,
     airedSeason = 1, overview = Some ''The sequel'', filename = Some ''b.jpg''\<rparr>"

definition placeholderC :: episode where
  "placeholderC = \<lparr>episode_id = Num 201, episodeName = Some ''TBA'', airedEpisodeNumber = 1,
     airedSeason = 2, overview = None, filename = Some ''c.jpg''\<rparr>"

definition demoGateway :: gateway where
  "demoGateway =
     \<lparr>summary = (\<lambda>sid. Inr (Some (SummaryBody (Some [1, 2])))),
      episodes = (\<lambda>sid s. if s = 1 then Inr (Some [episodeA, episodeB])
                          else if s = 2 then Inr (Some [placeholderC])
                          else Inl TransportFailure)\<rparr>"

text \<open>The same series while the episode query of season 2 fails.\<close>

definition faultyGateway :: gateway where
  "faultyGateway =
     \<lparr>summary = (\<lambda>sid. Inr (Some (SummaryBody (Some [1, 2])))),
      episodes = (\<lambda>sid s. if s = 1 then Inr (Some [episodeA, episodeB])
                          else Inl TransportFailure)\<rparr>"

text \<open>A transport that delivers everything, and one that rejects both awaited calls.\<close>

definition steadyTransport :: transport where
  "steadyTransport = \<lparr>sendPhoto = (\<lambda>p. Resolved), editMessageReplyMarkup = (\<lambda>t e. Resolved)\<rparr>"

definition brokenTransport :: transport where
  "brokenTransport = \<lparr>sendPhoto = (\<lambda>p. Rejected), editMessageReplyMarkup = (\<lambda>t e. Rejected)\<rparr>"

text \<open>A stored like of user 1 on episode 102, and two taps on that episode.\<close>

definition likeOfUser1 :: reaction_record where
  "likeOfUser1 = \<lparr>episodeId = Str ''102'', userId = 1, reaction = Like\<rparr>"






section \<open>The season walk\<close>


lemma seasonWalk_Nil: "seasonWalk gw sid [] log = (Inr None, log)"
  by (simp add: seasonWalk.simps)

lemma seasonWalk_snoc:
  "seasonWalk gw sid (xs @ [x]) log =
     (case fetchValidEpisodes gw sid x of
        Inl e \<Rightarrow> (Inl e, log @ [EpisodesCall sid x])
      | Inr v \<Rightarrow>
          if v \<noteq> [] then (Inr (Some (last v)), log @ [EpisodesCall sid x])
          else seasonWalk gw sid xs (log @ [EpisodesCall sid x]))"
  by (subst seasonWalk.simps) (simp split: sum.splits)

lemma seasonWalk_skip:
  "\<forall>t\<in>set post. fetchValidEpisodes gw sid t = Inr [] \<Longrightarrow>
   seasonWalk gw sid (pre @ post) log =
     seasonWalk gw sid pre (log @ map (EpisodesCall sid) (rev post))"
proof (induction post arbitrary: log rule: rev_induct)
  case Nil
  then show ?case by simp
next
  case (snoc x xs)
  have "seasonWalk gw sid ((pre @ xs) @ [x]) log =
          seasonWalk gw sid (pre @ xs) (log @ [EpisodesCall sid x])"
    using snoc.prems by (subst seasonWalk_snoc) simp
  then show ?case using snoc by simp
qed

lemma seasonWalk_shape:
  "\<exists>k\<le>length ss. snd (seasonWalk gw sid ss log) =
      log @ map (EpisodesCall sid) (take k (rev ss))"
proof (induction ss arbitrary: log rule: rev_induct)
  case Nil
  then show ?case by (simp add: seasonWalk_Nil)
next
  case (snoc x xs)
  show ?case
  proof (cases "fetchValidEpisodes gw sid x = Inr []")
    case True
    from snoc [of "log @ [EpisodesCall sid x]"] obtain k where
      k: "k \<le> length xs"
      "snd (seasonWalk gw sid xs (log @ [EpisodesCall sid x])) =
         (log @ [EpisodesCall sid x]) @ map (EpisodesCall sid) (take k (rev xs))"
      by blast
    have "snd (seasonWalk gw sid (xs @ [x]) log) =
            log @ map (EpisodesCall sid) (take (Suc k) (rev (xs @ [x])))"
      using True k(2) by (simp add: seasonWalk_snoc)
    moreover have "Suc k \<le> length (xs @ [x])" using k(1) by simp
    ultimately show ?thesis by blast
  next
    case False
    then have "snd (seasonWalk gw sid (xs @ [x]) log) =
            log @ map (EpisodesCall sid) (take (Suc 0) (rev (xs @ [x])))"
      by (simp add: seasonWalk_snoc split: sum.splits)
    moreover have "Suc 0 \<le> length (xs @ [x])" by simp
    ultimately show ?thesis by blast
  qed
qed


lemma fetchValidEpisodes_filter:
  "episodes gw sid s = Inr d \<Longrightarrow>
   fetchValidEpisodes gw sid s = Inr (filter isValid (case d of None \<Rightarrow> [] | Some l \<Rightarrow> l))"
  by (simp add: fetchValidEpisodes_def split: option.splits)

lemma seasonWalk_found:
  assumes "fetchValidEpisodes gw sid s = Inr v" and "v \<noteq> []"
    and "\<forall>t\<in>set post. fetchValidEpisodes gw sid t = Inr []"
  shows "seasonWalk gw sid (pre @ s # post) log =
           (Inr (Some (last v)), log @ map (EpisodesCall sid) (rev post @ [s]))"
proof -
  have "seasonWalk gw sid ((pre @ [s]) @ post) log =
          seasonWalk gw sid (pre @ [s]) (log @ map (EpisodesCall sid) (rev post))"
    using assms(3) by (rule seasonWalk_skip)
  also have "\<dots> = (Inr (Some (last v)), (log @ map (EpisodesCall sid) (rev post)) @ [EpisodesCall sid s])"
    using assms(1,2) by (simp add: seasonWalk_snoc)
  finally show ?thesis by simp
qed

lemma seasonWalk_Some:
  "fst (seasonWalk gw sid ss log) = Inr (Some ep) \<Longrightarrow>
   \<exists>s\<in>set ss. \<exists>v. fetchValidEpisodes gw sid s = Inr v \<and> v \<noteq> [] \<and> ep = last v"
proof (induction ss arbitrary: log rule: rev_induct)
  case Nil
  then show ?case by (simp add: seasonWalk_Nil)
next
  case (snoc x xs)
  show ?case
  proof (cases "fetchValidEpisodes gw sid x")
    case (Inl e)
    with snoc.prems show ?thesis by (simp add: seasonWalk_snoc)
  next
    case (Inr v)
    show ?thesis
    proof (cases "v = []")
      case True
      with Inr snoc.prems
      have "fst (seasonWalk gw sid xs (log @ [EpisodesCall sid x])) = Inr (Some ep)"
        by (simp add: seasonWalk_snoc)
      from snoc.IH [OF this] show ?thesis by auto
    next
      case False
      with Inr snoc.prems have "ep = last v" by (simp add: seasonWalk_snoc)
      with Inr False show ?thesis by auto
    qed
  qed
qed

lemma sorted_take_rev:
  fixes ss :: "nat list"
  assumes "sorted ss"
  shows "sorted (rev (take k (rev ss)))"
proof -
  have "rev (take k (rev ss)) = drop (length ss - k) ss"
    by (simp add: rev_take)
  then show ?thesis using assms by (simp add: sorted_wrt_drop)
qed

lemma seasonsFetched_append:
  "seasonsFetched (xs @ ys) = seasonsFetched xs @ seasonsFetched ys"
  by (induction xs rule: seasonsFetched.induct) simp_all

lemma seasonsFetched_map: "seasonsFetched (map (EpisodesCall sid) fs) = fs"
  by (induction fs) simp_all

lemma fetchLatestEpisode_log:
  assumes "summary gw sid = Inr (Some (SummaryBody (Some ss)))"
  shows "\<exists>k\<le>length ss. (ss \<noteq> [] \<longrightarrow> 0 < k) \<and>
           snd (fetchLatestEpisode gw sid) =
             SummaryCall sid # map (EpisodesCall sid) (take k (rev ss))"
proof (cases "ss = []")
  case True
  with assms show ?thesis by (simp add: fetchLatestEpisode_def)
next
  case False
  obtain k where k: "k \<le> length ss"
    "snd (seasonWalk gw sid ss [SummaryCall sid]) =
       [SummaryCall sid] @ map (EpisodesCall sid) (take k (rev ss))"
    using seasonWalk_shape [of ss gw sid "[SummaryCall sid]"] by blast
  have pos: "0 < k"
  proof (rule ccontr)
    assume "\<not> 0 < k"
    then have k0: "k = 0" by simp
    from False obtain xs x where ss: "ss = xs @ [x]" by (cases ss rule: rev_cases) auto
    obtain j where "snd (seasonWalk gw sid xs ([SummaryCall sid] @ [EpisodesCall sid x])) =
        ([SummaryCall sid] @ [EpisodesCall sid x]) @ map (EpisodesCall sid) (take j (rev xs))"
      using seasonWalk_shape [of xs gw sid "[SummaryCall sid] @ [EpisodesCall sid x]"] by blast
    then have "length (snd (seasonWalk gw sid ss [SummaryCall sid])) \<ge> 2"
      unfolding ss by (simp add: seasonWalk_snoc split: sum.splits)
    with k(2) k0 show False by simp
  qed
  have "snd (fetchLatestEpisode gw sid) = snd (seasonWalk gw sid ss [SummaryCall sid])"
    using assms False by (simp add: fetchLatestEpisode_def split: prod.splits sum.splits)
  with k pos show ?thesis by auto
qed



lemma last_sorted_Max:
  fixes ss :: "nat list"
  assumes "sorted ss" and "ss \<noteq> []"
  shows "last ss = Max (set ss)"
proof -
  from assms(2) obtain xs x where ss: "ss = xs @ [x]" by (cases ss rule: rev_cases) auto
  with assms(1) have "\<forall>y\<in>set ss. y \<le> x" by (auto simp: sorted_append)
  moreover have "x \<in> set ss" using ss by simp
  ultimately have "Max (set ss) = x" by (intro Max_eqI) auto
  with ss show ?thesis by simp
qed

lemma fetchLatestEpisode_None:
  assumes "\<forall>t\<in>set ss. \<forall>v. fetchValidEpisodes gw sid t = Inr v \<longrightarrow> v = []"
    and "summary gw sid = Inr (Some (SummaryBody (Some ss)))"
  shows "fst (fetchLatestEpisode gw sid) = None"
proof (rule ccontr)
  assume "fst (fetchLatestEpisode gw sid) \<noteq> None"
  then obtain ep where ep: "fst (fetchLatestEpisode gw sid) = Some ep" by auto
  with assms(2) have "fst (seasonWalk gw sid ss [SummaryCall sid]) = Inr (Some ep)"
    by (auto simp: fetchLatestEpisode_def split: if_splits prod.splits sum.splits)
  from seasonWalk_Some [OF this] assms(1) show False by blast
qed

lemma demo_valid1: "fetchValidEpisodes demoGateway ''S'' 1 = Inr [episodeA, episodeB]"
  by (simp add: fetchValidEpisodes_def demoGateway_def isValid_def episodeA_def episodeB_def)

lemma demo_valid2: "fetchValidEpisodes demoGateway ''S'' 2 = Inr []"
  by (simp add: fetchValidEpisodes_def demoGateway_def isValid_def placeholderC_def)

lemma faulty_run:
  "fetchLatestEpisode faultyGateway ''S'' = (None, [SummaryCall ''S'', EpisodesCall ''S'' 2])"
  by (simp add: fetchLatestEpisode_def faultyGateway_def seasonWalk.simps fetchValidEpisodes_def)

text \<open>
  Claim C1. Let the summary of a series hold the list \<open>ss\<close> of aired seasons, in ascending
  order. The seasons the resolver requests are then in descending order and start with the
  most recent one. When \<open>s\<close> is the most recent season whose filtered episode list \<open>v\<close> is
  not empty (every later season \<open>post\<close> answered with no eligible episode), the resolver
  returns the last element of \<open>v\<close>, having requested exactly the seasons of \<open>post\<close> from the
  newest down and then \<open>s\<close>: no season before \<open>s\<close> is consulted. When no season yields an
  eligible episode the result is \<open>None\<close>. The filtered list of a season is the provider's
  list with the episodes kept, in the provider's order, whose title, synopsis and thumbnail
  reference are all truthy (present and not the empty string).
\<close>

theorem fetchLatestEpisode_walks_back:
  assumes sm: "summary gw sid = Inr (Some (SummaryBody (Some ss)))" and srt: "sorted ss"
  shows "sorted (rev (seasonsFetched (snd (fetchLatestEpisode gw sid))))
     \<and> (ss \<noteq> [] \<longrightarrow> hd (seasonsFetched (snd (fetchLatestEpisode gw sid))) = Max (set ss))
     \<and> (ss = pre @ s # post \<and> fetchValidEpisodes gw sid s = Inr v \<and> v \<noteq> []
          \<and> (\<forall>t\<in>set post. fetchValidEpisodes gw sid t = Inr []) \<longrightarrow>
        fetchLatestEpisode gw sid =
          (Some (last v), SummaryCall sid # map (EpisodesCall sid) (rev post @ [s])))
     \<and> ((\<forall>t\<in>set ss. \<forall>w. fetchValidEpisodes gw sid t = Inr w \<longrightarrow> w = []) \<longrightarrow>
        fst (fetchLatestEpisode gw sid) = None)
     \<and> (\<forall>t d. episodes gw sid t = Inr d \<longrightarrow>
          fetchValidEpisodes gw sid t =
            Inr (filter isValid (case d of None \<Rightarrow> [] | Some l \<Rightarrow> l)))"
proof -
  obtain k where k: "k \<le> length ss" "ss \<noteq> [] \<longrightarrow> 0 < k"
    "snd (fetchLatestEpisode gw sid) =
       SummaryCall sid # map (EpisodesCall sid) (take k (rev ss))"
    using fetchLatestEpisode_log [OF sm] by blast
  have fetched: "seasonsFetched (snd (fetchLatestEpisode gw sid)) = take k (rev ss)"
    using k(3) by (simp add: seasonsFetched_map)
  have c1: "sorted (rev (seasonsFetched (snd (fetchLatestEpisode gw sid))))"
    unfolding fetched using srt by (rule sorted_take_rev)
  have c2: "ss \<noteq> [] \<longrightarrow> hd (seasonsFetched (snd (fetchLatestEpisode gw sid))) = Max (set ss)"
  proof
    assume ne: "ss \<noteq> []"
    with k(2) have "0 < k" by simp
    then have "hd (take k (rev ss)) = hd (rev ss)" by simp
    also have "\<dots> = last ss" using ne by (simp add: hd_rev)
    also have "\<dots> = Max (set ss)" using srt ne by (rule last_sorted_Max)
    finally show "hd (seasonsFetched (snd (fetchLatestEpisode gw sid))) = Max (set ss)"
      unfolding fetched .
  qed
  have c3: "ss = pre @ s # post \<and> fetchValidEpisodes gw sid s = Inr v \<and> v \<noteq> []
          \<and> (\<forall>t\<in>set post. fetchValidEpisodes gw sid t = Inr []) \<longrightarrow>
        fetchLatestEpisode gw sid =
          (Some (last v), SummaryCall sid # map (EpisodesCall sid) (rev post @ [s]))"
  proof
    assume h: "ss = pre @ s # post \<and> fetchValidEpisodes gw sid s = Inr v \<and> v \<noteq> []
          \<and> (\<forall>t\<in>set post. fetchValidEpisodes gw sid t = Inr [])"
    then have "seasonWalk gw sid ss [SummaryCall sid] =
        (Inr (Some (last v)), [SummaryCall sid] @ map (EpisodesCall sid) (rev post @ [s]))"
      using seasonWalk_found [of gw sid s v post pre "[SummaryCall sid]"] by simp
    moreover have "ss \<noteq> []" using h by auto
    ultimately show "fetchLatestEpisode gw sid =
          (Some (last v), SummaryCall sid # map (EpisodesCall sid) (rev post @ [s]))"
      using sm by (simp add: fetchLatestEpisode_def)
  qed
  have c4: "(\<forall>t\<in>set ss. \<forall>w. fetchValidEpisodes gw sid t = Inr w \<longrightarrow> w = []) \<longrightarrow>
        fst (fetchLatestEpisode gw sid) = None"
    using fetchLatestEpisode_None [OF _ sm] by blast
  have c5: "\<forall>t d. episodes gw sid t = Inr d \<longrightarrow>
          fetchValidEpisodes gw sid t =
            Inr (filter isValid (case d of None \<Rightarrow> [] | Some l \<Rightarrow> l))"
    using fetchValidEpisodes_filter by blast
  from c1 c2 c3 c4 c5 show ?thesis by blast
qed

theorem fetchLatestEpisode_walks_back_witness:
  "fetchLatestEpisode demoGateway ''S'' =
     (Some episodeB, [SummaryCall ''S'', EpisodesCall ''S'' 2, EpisodesCall ''S'' 1])"
proof -
  have sm: "summary demoGateway ''S'' = Inr (Some (SummaryBody (Some [1, 2])))"
    by (simp add: demoGateway_def)
  have srt: "sorted [1, 2 :: nat]" by simp
  have h: "[1, 2] = [] @ 1 # [2 :: nat] \<and>
      fetchValidEpisodes demoGateway ''S'' 1 = Inr [episodeA, episodeB] \<and>
      [episodeA, episodeB] \<noteq> [] \<and>
      (\<forall>t\<in>set [2]. fetchValidEpisodes demoGateway ''S'' t = Inr [])"
    using demo_valid1 demo_valid2 by simp
  from fetchLatestEpisode_walks_back
    [where gw = demoGateway and sid = "''S''" and ss = "[1, 2]" and pre = "[]" and s = 1
       and post = "[2]" and v = "[episodeA, episodeB]", OF sm srt] h
  show ?thesis by simp
qed

text \<open>
  Claim C10. The resolver terminates: the loop is a total function, its recursion accepted
  with the length of the season list as measure, each round dropping exactly the last
  element. With \<open>n\<close> aired seasons the requests of a run are the summary request followed
  by the episode requests of the first \<open>k \<le> n\<close> seasons from the end of the list, one
  request each.
\<close>

theorem fetchLatestEpisode_bounded:
  assumes "summary gw sid = Inr (Some (SummaryBody (Some ss)))"
  shows "(\<exists>r k. k \<le> length ss \<and>
            fetchLatestEpisode gw sid =
              (r, SummaryCall sid # map (EpisodesCall sid) (take k (rev ss))))
       \<and> length (seasonsFetched (snd (fetchLatestEpisode gw sid))) \<le> length ss"
proof -
  obtain k where k: "k \<le> length ss"
    "snd (fetchLatestEpisode gw sid) =
       SummaryCall sid # map (EpisodesCall sid) (take k (rev ss))"
    using fetchLatestEpisode_log [OF assms] by blast
  have "fetchLatestEpisode gw sid =
      (fst (fetchLatestEpisode gw sid), SummaryCall sid # map (EpisodesCall sid) (take k (rev ss)))"
    using k(2) by (metis prod.collapse)
  with k(1) have "\<exists>r k. k \<le> length ss \<and>
            fetchLatestEpisode gw sid =
              (r, SummaryCall sid # map (EpisodesCall sid) (take k (rev ss)))"
    by blast
  moreover have "length (seasonsFetched (snd (fetchLatestEpisode gw sid))) \<le> length ss"
    using k by (simp add: seasonsFetched_map)
  ultimately show ?thesis by blast
qed

theorem fetchLatestEpisode_bounded_witness:
  "length (seasonsFetched (snd (fetchLatestEpisode demoGateway ''S''))) \<le> length [1, 2 :: nat]"
proof -
  have sm: "summary demoGateway ''S'' = Inr (Some (SummaryBody (Some [1, 2])))"
    by (simp add: demoGateway_def)
  from fetchLatestEpisode_bounded [OF sm] show ?thesis by simp
qed

lemma seasonWalk_fault:
  "\<exists>fs. snd (seasonWalk gw sid ss log) = log @ map (EpisodesCall sid) fs
     \<and> (\<forall>t\<in>set (butlast fs). fetchValidEpisodes gw sid t = Inr [])
     \<and> (fs \<noteq> [] \<and> isl (fetchValidEpisodes gw sid (last fs)) \<longrightarrow>
          isl (fst (seasonWalk gw sid ss log)))"
proof (induction ss arbitrary: log rule: rev_induct)
  case Nil
  show ?case by (rule exI [of _ "[]"]) (simp add: seasonWalk_Nil)
next
  case (snoc x xs)
  show ?case
  proof (cases "fetchValidEpisodes gw sid x = Inr []")
    case True
    from snoc [of "log @ [EpisodesCall sid x]"] obtain fs where fs:
      "snd (seasonWalk gw sid xs (log @ [EpisodesCall sid x])) =
         (log @ [EpisodesCall sid x]) @ map (EpisodesCall sid) fs"
      "\<forall>t\<in>set (butlast fs). fetchValidEpisodes gw sid t = Inr []"
      "fs \<noteq> [] \<and> isl (fetchValidEpisodes gw sid (last fs)) \<longrightarrow>
          isl (fst (seasonWalk gw sid xs (log @ [EpisodesCall sid x])))"
      by blast
    have eq: "seasonWalk gw sid (xs @ [x]) log = seasonWalk gw sid xs (log @ [EpisodesCall sid x])"
      using True by (simp add: seasonWalk_snoc)
    show ?thesis
      by (rule exI [of _ "x # fs"]) (use True fs eq in auto)
  next
    case False
    show ?thesis
      by (rule exI [of _ "[x]"]) (use False in \<open>auto simp: seasonWalk_snoc split: sum.splits\<close>)
  qed
qed

lemma isl_fetchValidEpisodes:
  "isl (fetchValidEpisodes gw sid s) = isl (episodes gw sid s)"
  by (simp add: fetchValidEpisodes_def split: sum.splits option.splits)

text \<open>
  Claim C6. When the provider answers a request of a run with a fault, be it the summary
  request or the episode request of a season, the run returns \<open>None\<close>; the failed request
  is the last one the run sent and it was sent once.
\<close>

theorem fetchLatestEpisode_fault_is_null:
  assumes mem: "c \<in> set (snd (fetchLatestEpisode gw sid))" and bad: "raises gw c"
  shows "fst (fetchLatestEpisode gw sid) = None
     \<and> (\<exists>pre. snd (fetchLatestEpisode gw sid) = pre @ [c] \<and> c \<notin> set pre)"
proof (cases "\<exists>ss. summary gw sid = Inr (Some (SummaryBody (Some ss))) \<and> ss \<noteq> []")
  case False
  then have res: "fetchLatestEpisode gw sid = (None, [SummaryCall sid])"
    by (auto simp: fetchLatestEpisode_def split: sum.splits option.splits)
       (metis summary_body.collapse)
  with mem have "c = SummaryCall sid" by simp
  with res show ?thesis by simp
next
  case True
  then obtain ss where ss: "summary gw sid = Inr (Some (SummaryBody (Some ss)))" "ss \<noteq> []"
    by blast
  obtain fs where fs:
    "snd (seasonWalk gw sid ss [SummaryCall sid]) = [SummaryCall sid] @ map (EpisodesCall sid) fs"
    "\<forall>t\<in>set (butlast fs). fetchValidEpisodes gw sid t = Inr []"
    "fs \<noteq> [] \<and> isl (fetchValidEpisodes gw sid (last fs)) \<longrightarrow>
          isl (fst (seasonWalk gw sid ss [SummaryCall sid]))"
    using seasonWalk_fault [of gw sid ss "[SummaryCall sid]"] by blast
  have log: "snd (fetchLatestEpisode gw sid) = SummaryCall sid # map (EpisodesCall sid) fs"
    using ss fs(1) by (auto simp: fetchLatestEpisode_def split: prod.splits sum.splits)
  have "c \<noteq> SummaryCall sid" using bad ss(1) by auto
  with mem log obtain t where t: "c = EpisodesCall sid t" "t \<in> set fs" by auto
  with bad have islt: "isl (fetchValidEpisodes gw sid t)" by (simp add: isl_fetchValidEpisodes)
  then have notin: "t \<notin> set (butlast fs)" using fs(2) by auto
  from t(2) have ne: "fs \<noteq> []" by auto
  then have split: "fs = butlast fs @ [last fs]" by simp
  with t(2) notin have tl: "t = last fs"
    by (metis Un_iff empty_iff empty_set set_ConsD set_append)
  with ne islt fs(3) have "isl (fst (seasonWalk gw sid ss [SummaryCall sid]))" by simp
  then have r: "fst (fetchLatestEpisode gw sid) = None"
    using ss by (auto simp: fetchLatestEpisode_def isl_def split: prod.splits sum.splits)
  have "snd (fetchLatestEpisode gw sid) =
          (SummaryCall sid # map (EpisodesCall sid) (butlast fs)) @ [c]"
    using log split tl t(1) by (metis append_Cons list.simps(8,9) map_append)
  moreover have "c \<notin> set (SummaryCall sid # map (EpisodesCall sid) (butlast fs))"
    using notin t(1) by auto
  ultimately show ?thesis using r by blast
qed

theorem fetchLatestEpisode_fault_is_null_witness:
  "raises faultyGateway (EpisodesCall ''S'' 2)
   \<and> fetchLatestEpisode faultyGateway ''S'' = (None, [SummaryCall ''S'', EpisodesCall ''S'' 2])"
proof -
  have mem: "EpisodesCall ''S'' 2 \<in> set (snd (fetchLatestEpisode faultyGateway ''S''))"
    by (simp add: faulty_run)
  have bad: "raises faultyGateway (EpisodesCall ''S'' 2)"
    by (simp add: faultyGateway_def)
  from fetchLatestEpisode_fault_is_null [OF mem bad] bad faulty_run show ?thesis by simp
qed

section \<open>The reaction store\<close>


lemma findOne_Some:
  "findOne coll e u = Some d \<Longrightarrow> d \<in> set coll \<and> episodeId d = e \<and> userId d = u"
  unfolding findOne_def by (induction coll) (auto split: if_splits)



lemma updateOne_same:
  "findOne coll e u = Some d \<Longrightarrow> reaction d = r \<Longrightarrow> updateOne coll e u r = coll"
  unfolding findOne_def by (induction coll) (auto split: if_splits)






























lemma rerender_last:
  "last (rerender tr coll r e) = AnswerCbQuery (''You reacted with '' @ reactionName r)"
  by (simp add: rerender_def)

lemma rerender_nonempty: "rerender tr coll r e \<noteq> []"
  by (simp add: rerender_def)





text \<open>
  Claim C7, as stated, fails: user 1, whose like of episode 102 is stored, taps like
  again, and the handler returns without any transport call, so without a toast.
\<close>

theorem reactionAction_resubmission_counterexample:
  "snd (reactionAction steadyTransport [likeOfUser1] Like ''102'' 1) = []"
  by (simp add: reactionAction_def findOne_def likeOfUser1_def)

text \<open>
  Claim C7, amended. A tap of a user without a document for the episode, or with one of a
  different value, is answered: the last thing the handler does is the toast
  \<^verbatim>\<open>You reacted with <reaction>\<close>, also when the edit of the button row was rejected. A tap
  that repeats the stored value returns at once: no write, no edit and no toast.
\<close>

theorem reactionAction_answers_changes:
  "((findOne coll (Str e) u = None \<or> (\<exists>d. findOne coll (Str e) u = Some d \<and> reaction d \<noteq> r))
      \<longrightarrow> snd (reactionAction tr coll r e u) \<noteq> []
        \<and> last (snd (reactionAction tr coll r e u)) =
            AnswerCbQuery (''You reacted with '' @ reactionName r))
   \<and> ((\<exists>d. findOne coll (Str e) u = Some d \<and> reaction d = r) \<longrightarrow>
        reactionAction tr coll r e u = (coll, []))"
  by (auto simp: reactionAction_def rerender_last rerender_nonempty)

theorem reactionAction_answers_changes_witness:
  "last (snd (reactionAction brokenTransport [likeOfUser1] Love ''102'' 1)) =
     AnswerCbQuery ''You reacted with love''
   \<and> reactionAction brokenTransport [likeOfUser1] Like ''102'' 1 = ([likeOfUser1], [])"
proof -
  have f: "findOne [likeOfUser1] (Str ''102'') 1 = Some likeOfUser1"
    by (simp add: findOne_def likeOfUser1_def)
  have r: "reaction likeOfUser1 = Like" by (simp add: likeOfUser1_def)
  from reactionAction_answers_changes [of "[likeOfUser1]" "''102''" 1 Love brokenTransport]
       reactionAction_answers_changes [of "[likeOfUser1]" "''102''" 1 Like brokenTransport] f r
  show ?thesis by simp
qed

section \<open>The per-tick check\<close>














section \<open>Tracked series\<close>

lemma findSeries_None: "findSeries coll sid = None \<longleftrightarrow> sid \<notin> set coll"
  by (auto simp: findSeries_def find_None_iff)

text \<open>
  Claim C8, as stated, fails: the reply to a second \<^verbatim>\<open>/add_series 42\<close> is the reply to
  \<^verbatim>\<open>/add_series\<close> without an id; the two outcomes are not told apart.
\<close>

theorem add_series_duplicate_counterexample:
  "snd (add_series [''42''] ''/add_series 42'') = snd (add_series [''42''] ''/add_series'')"
  by (simp add: add_series_def at_index_def findSeries_def)

text \<open>
  Claim C8, amended. An \<^verbatim>\<open>add_series\<close> command whose id is already in the collection leaves
  the collection as it is, so no second document is inserted, and is rejected with the
  one reply the handler has for every rejection, the same as for a missing id. The lookup
  stands before the insertion: an id that is not empty and not in the collection is
  appended and confirmed.
\<close>

theorem add_series_duplicate:
  assumes "at_index (split_space text) 1 = Some sid" and "sid \<in> set coll"
  shows "add_series coll text =
           (coll, [Reply ''Please provide a valid series ID or the series is already added.''])
     \<and> (at_index (split_space text') 1 = None \<longrightarrow>
          snd (add_series coll text') = snd (add_series coll text))
     \<and> (at_index (split_space text') 1 = Some sid' \<and> sid' \<noteq> [] \<and> sid' \<notin> set coll \<longrightarrow>
          add_series coll text' =
            (coll @ [sid'], [Reply (''Series with ID '' @ sid' @ '' added.'')]))"
  using assms by (simp add: add_series_def findSeries_None)

lemma split_add_42: "at_index (split_space ''/add_series 42'') 1 = Some ''42''"
  by (simp add: at_index_def)

theorem add_series_duplicate_witness:
  "at_index (split_space ''/add_series 42'') 1 = Some ''42'' \<and> ''42'' \<in> set [''7'', ''42'']
   \<and> add_series [''7'', ''42''] ''/add_series 42'' =
       ([''7'', ''42''], [Reply ''Please provide a valid series ID or the series is already added.''])"
proof -
  have m: "''42'' \<in> set [''7'', ''42'']" by simp
  from add_series_duplicate [OF split_add_42 m] split_add_42 m show ?thesis by simp
qed

text \<open>
  Claim C9, as stated, fails: removing series 2 from a collection that holds only series 1
  is answered with the confirmation \<^verbatim>\<open>Series with ID 2 removed.\<close>, the very answer given
  when series 2 is tracked.
\<close>

theorem remove_action_untracked_counterexample:
  "snd (remove_action [''1''] ''2'') =
     [EditMessageText ''Series with ID 2 removed.'' [''back_to_list'']]
   \<and> snd (remove_action [''1''] ''2'') = snd (remove_action [''2''] ''2'')"
  by (simp add: remove_action_def)

text \<open>
  Claim C9, amended. Removing an id that is not in the collection leaves the collection as
  it is, and the handler answers with the same \<^verbatim>\<open>Series with ID <id> removed.\<close>
  confirmation it gives for a tracked id: it has no other outcome.
\<close>

theorem remove_action_untracked:
  assumes "sid \<notin> set coll"
  shows "remove_action coll sid =
    (coll, [EditMessageText (''Series with ID '' @ sid @ '' removed.'') [''back_to_list'']])
    \<and> snd (remove_action (coll @ [sid]) sid) = snd (remove_action coll sid)"
  using assms by (simp add: remove_action_def deleteOne_def remove1_idem)

theorem remove_action_untracked_witness:
  "''2'' \<notin> set [''1'']
   \<and> remove_action [''1''] ''2'' =
       ([''1''], [EditMessageText ''Series with ID 2 removed.'' [''back_to_list'']])"
proof -
  have m: "''2'' \<notin> set [''1'']" by simp
  from remove_action_untracked [OF m] m show ?thesis by simp
qed

end
